theory Spec2Isabelle
  imports Main "HOL-Library.Sublist"
begin

section \<open>Strings and POSIX path functions\<close>

text \<open>
  The release script \<^verbatim>\<open>dev/prepare_jvm_release.py\<close> is modelled on a POSIX host:
  \<^verbatim>\<open>os.path\<close> is \<^verbatim>\<open>posixpath\<close>, the separator is the forward slash and
  \<^verbatim>\<open>os.path.abspath("/")\<close> is \<^verbatim>\<open>"/"\<close>. What \<^verbatim>\<open>os.path\<close> is depends on the
  host, and so does \<^verbatim>\<open>normpath\<close>: the section after this one gives \<^verbatim>\<open>normpath\<close> for a
  POSIX and for an NT host, and the functions of this section are its POSIX instance.
  Python strings are \<open>string\<close>; exceptions are values of \<open>py_error\<close>.
\<close>

datatype errno = ENOENT | ENOTDIR | EEXIST | EISDIR

datatype py_error =
    TypeError
  | IndexError
  | ValueError string
  | OSError errno
  | SameFileError
  | CalledProcessError
  | HTTPError
  | BadZipFile

definition sep :: char where
  "sep = CHR ''/''"

text \<open>\<^verbatim>\<open>str.split(c)\<close> for a separator of one character: never the empty list.\<close>

fun str_split :: "char \<Rightarrow> string \<Rightarrow> string list" where
  "str_split c [] = [[]]"
| "str_split c (x # xs) =
     (if x = c then [] # str_split c xs
      else (case str_split c xs of [] \<Rightarrow> [[x]] | w # ws \<Rightarrow> (x # w) # ws))"

definition startswith_sep :: "string \<Rightarrow> bool" where
  "startswith_sep b = (case b of [] \<Rightarrow> False | x # _ \<Rightarrow> x = sep)"

definition endswith_sep :: "string \<Rightarrow> bool" where
  "endswith_sep p = (case rev p of [] \<Rightarrow> False | x # _ \<Rightarrow> x = sep)"

text \<open>One round of the loop of \<^verbatim>\<open>posixpath.join\<close>.\<close>

definition join_step :: "string \<Rightarrow> string \<Rightarrow> string" where
  "join_step path b =
     (if startswith_sep b then b
      else if path = [] \<or> endswith_sep path then path @ b
      else path @ [sep] @ b)"

text \<open>\<^verbatim>\<open>os.path.join(a, *p)\<close>.\<close>

definition os_path_join :: "string \<Rightarrow> string list \<Rightarrow> string" where
  "os_path_join a p = foldl join_step a p"

text \<open>\<^verbatim>\<open>os.path.isabs\<close>: the path starts with the separator.\<close>

definition isabs :: "string \<Rightarrow> bool" where
  "isabs p = startswith_sep p"

text \<open>\<^verbatim>\<open>os.path.abspath("/")\<close> on a POSIX host.\<close>

definition abspath_root :: string where
  "abspath_root = [sep]"

text \<open>
  \<^verbatim>\<open>normpath\<close> of the script, on a POSIX host. The call \<^verbatim>\<open>os.path.join(*path.split("/"))\<close> unpacks the
  list of components: with no component it would raise \<^verbatim>\<open>TypeError\<close>.
\<close>

definition normpath :: "string \<Rightarrow> py_error + string" where
  "normpath path =
     (case str_split CHR ''/'' path of
        [] \<Rightarrow> Inl TypeError
      | a # p \<Rightarrow>
          (let normalized = os_path_join a p
           in if isabs path then Inr (abspath_root @ normalized) else Inr normalized))"

section \<open>Path normalisation on a POSIX or an NT host\<close>
















section \<open>The branch-name resolver\<close>

text \<open>The character class \<^verbatim>\<open>[0-9\.]\<close>.\<close>

definition is_ver_char :: "char \<Rightarrow> bool" where
  "is_ver_char c = (c \<in> set ''0123456789.'')"

text \<open>
  A match of \<^verbatim>\<open>release_[0-9\.]+\<close> anchored at the start of the text: the literal, then the
  longest run of class characters (the quantifier is greedy and nothing follows it), which
  must not be empty.
\<close>

definition match_here :: "string \<Rightarrow> string option" where
  "match_here s =
     (if take 8 s = ''release_''
      then (let run = takeWhile is_ver_char (drop 8 s)
            in if run = [] then None else Some (''release_'' @ run))
      else None)"

text \<open>\<^verbatim>\<open>re.search\<close>: the match at the leftmost position that has one.\<close>

fun re_search :: "string \<Rightarrow> string option" where
  "re_search [] = match_here []"
| "re_search (c # cs) =
     (case match_here (c # cs) of Some m \<Rightarrow> Some m | None \<Rightarrow> re_search cs)"

text \<open>
  \<^verbatim>\<open>get_current_git_branch\<close>; the argument is the decoded output of
  \<^verbatim>\<open>git log -n 1 --pretty=%d HEAD\<close>.
\<close>

definition get_current_git_branch :: "string \<Rightarrow> py_error + string" where
  "get_current_git_branch out =
     (case re_search out of
        None \<Rightarrow> Inl (ValueError ''Expected branch name of form release_xxx'')
      | Some m \<Rightarrow> Inr m)"

text \<open>\<^verbatim>\<open>get_current_commit_hash\<close>; the argument is the decoded output of
  \<^verbatim>\<open>git rev-parse HEAD\<close>, of which the first line is taken.\<close>

definition get_current_commit_hash :: "string \<Rightarrow> py_error + string" where
  "get_current_commit_hash out =
     (case str_split (CHR 0x0A) out of [] \<Rightarrow> Inl IndexError | l # _ \<Rightarrow> Inr l)"

section \<open>The process and its environment\<close>

text \<open>
  What the script touches outside itself: the file system, the working directory, standard
  output, the network, child processes and the names \<^verbatim>\<open>tempfile\<close> draws. The model has
  no permissions, no symbolic links and no concurrent processes. A file holds either plain
  bytes or the bytes of a zip archive, given by its members.
\<close>

type_synonym path = "string list"

datatype content = Bytes string | Zip "(string \<times> string) list"

datatype node = File content | Dir

type_synonym fsmap = "(path \<times> node) list"

text \<open>Every call that acts on the environment is recorded, in order, with its arguments.\<close>

datatype event =
    Print string
  | Chdir string
  | Copy string string
  | Makedirs string
  | Mkdir string
  | CheckCall string
  | CheckOutput "string list"
  | Urlretrieve string string
  | Extractall string string
  | Mkdtemp
  | Cleanup string

record world =
  fs :: fsmap
  cwd :: path
  trace :: "event list"
  remote :: "string \<Rightarrow> content option"
  shell :: "string \<Rightarrow> path \<Rightarrow> fsmap \<Rightarrow> nat \<times> fsmap"
  child_output :: "string list \<Rightarrow> string option"
  tmp_names :: "string list"
  sys_executable :: string

text \<open>
  A statement runs in a world and leaves a world, with either a value or the exception it
  raised: an exception does not undo what was done before it.
\<close>

type_synonym 'a io = "world \<Rightarrow> (py_error + 'a) \<times> world"

definition return_io :: "'a \<Rightarrow> 'a io" where
  "return_io x = (\<lambda>w. (Inr x, w))"

definition raise_io :: "py_error \<Rightarrow> 'a io" where
  "raise_io e = (\<lambda>w. (Inl e, w))"

definition lift_io :: "py_error + 'a \<Rightarrow> 'a io" where
  "lift_io r = (\<lambda>w. (r, w))"

definition bind_io :: "'a io \<Rightarrow> ('a \<Rightarrow> 'b io) \<Rightarrow> 'b io" where
  "bind_io m f = (\<lambda>w. case m w of (Inl e, w') \<Rightarrow> (Inl e, w') | (Inr x, w') \<Rightarrow> f x w')"

definition then_io :: "'a io \<Rightarrow> 'b io \<Rightarrow> 'b io" where
  "then_io m n = bind_io m (\<lambda>_. n)"

text \<open>\<^verbatim>\<open>try: m finally: c\<close>: an exception of the clean-up replaces the outcome of \<open>m\<close>.\<close>

definition finally_io :: "'a io \<Rightarrow> unit io \<Rightarrow> 'a io" where
  "finally_io m c =
     (\<lambda>w. case m w of (r, w') \<Rightarrow>
        (case c w' of (Inl e, w'') \<Rightarrow> (Inl e, w'') | (Inr _, w'') \<Rightarrow> (r, w'')))"

text \<open>\<^verbatim>\<open>try: m except ... as e: h(e)\<close>.\<close>

definition except_io :: "'a io \<Rightarrow> (py_error \<Rightarrow> 'a io) \<Rightarrow> 'a io" where
  "except_io m h = (\<lambda>w. case m w of (Inl e, w') \<Rightarrow> h e w' | (Inr x, w') \<Rightarrow> (Inr x, w'))"

fun for_io :: "'b list \<Rightarrow> ('b \<Rightarrow> unit io) \<Rightarrow> unit io" where
  "for_io [] f = return_io ()"
| "for_io (x # xs) f = then_io (f x) (for_io xs f)"

fun seq_io :: "unit io list \<Rightarrow> unit io" where
  "seq_io [] = return_io ()"
| "seq_io (m # ms) = then_io m (seq_io ms)"

definition record_event :: "event \<Rightarrow> unit io" where
  "record_event e = (\<lambda>w. (Inr (), w\<lparr>trace := trace w @ [e]\<rparr>))"

definition py_print :: "string \<Rightarrow> unit io" where
  "py_print s = record_event (Print s)"

subsection \<open>Path lookup\<close>

definition node_at :: "fsmap \<Rightarrow> path \<Rightarrow> node option" where
  "node_at m p = (if p = [] then Some Dir else map_of m p)"

definition fs_put :: "path \<Rightarrow> node \<Rightarrow> fsmap \<Rightarrow> fsmap" where
  "fs_put p n m = (p, n) # filter (\<lambda>e. fst e \<noteq> p) m"

definition fs_remove_tree :: "path \<Rightarrow> fsmap \<Rightarrow> fsmap" where
  "fs_remove_tree q m = filter (\<lambda>e. \<not> prefix q (fst e)) m"

text \<open>
  Walking the components of a path from a directory. An empty component (a doubled or a
  trailing separator) is skipped; every other component is looked up in the current place,
  which must be a directory. The place reached need not exist.
\<close>

fun walk :: "fsmap \<Rightarrow> path \<Rightarrow> string list \<Rightarrow> errno + path" where
  "walk m cur [] = Inr cur"
| "walk m cur (c # cs) =
     (if c = [] then walk m cur cs
      else (case node_at m cur of
              None \<Rightarrow> Inl ENOENT
            | Some (File _) \<Rightarrow> Inl ENOTDIR
            | Some Dir \<Rightarrow>
                walk m (if c = ''.'' then cur else if c = ''..'' then butlast cur else cur @ [c]) cs))"

definition resolve :: "world \<Rightarrow> string \<Rightarrow> errno + path" where
  "resolve w p =
     (if p = [] then Inl ENOENT
      else walk (fs w) (if isabs p then [] else cwd w) (str_split sep p))"

definition os_path_exists :: "world \<Rightarrow> string \<Rightarrow> bool" where
  "os_path_exists w p = (case resolve w p of Inl _ \<Rightarrow> False | Inr q \<Rightarrow> node_at (fs w) q \<noteq> None)"

definition os_path_isdir :: "world \<Rightarrow> string \<Rightarrow> bool" where
  "os_path_isdir w p = (case resolve w p of Inl _ \<Rightarrow> False | Inr q \<Rightarrow> node_at (fs w) q = Some Dir)"


text \<open>\<^verbatim>\<open>os.path.basename\<close>: what follows the last separator.\<close>

definition basename :: "string \<Rightarrow> string" where
  "basename p = last (str_split sep p)"

text \<open>The components of a list, with one separator between neighbours.\<close>

fun intercalate_sep :: "string list \<Rightarrow> string" where
  "intercalate_sep [] = []"
| "intercalate_sep [w] = w"
| "intercalate_sep (w # v # ws) = w @ [sep] @ intercalate_sep (v # ws)"

text \<open>The head of \<^verbatim>\<open>posixpath.split\<close>, that is \<^verbatim>\<open>os.path.dirname\<close>.\<close>

definition dirname :: "string \<Rightarrow> string" where
  "dirname p =
     (let head = take (length p - length (basename p)) p
      in if head \<noteq> [] \<and> \<not> list_all (\<lambda>c. c = sep) head
         then rev (dropWhile (\<lambda>c. c = sep) (rev head)) else head)"

text \<open>The absolute path string of a place, as \<^verbatim>\<open>os.getcwd\<close> reports it.\<close>

definition render :: "path \<Rightarrow> string" where
  "render p = (if p = [] then [sep] else concat (map (\<lambda>c. sep # c) p))"

subsection \<open>The library calls the script makes\<close>

definition os_getcwd :: "string io" where
  "os_getcwd =
     (\<lambda>w. if node_at (fs w) (cwd w) = Some Dir then (Inr (render (cwd w)), w)
          else (Inl (OSError ENOENT), w))"

definition os_chdir :: "string \<Rightarrow> unit io" where
  "os_chdir p =
     then_io (record_event (Chdir p))
       (\<lambda>w. case resolve w p of
               Inl e \<Rightarrow> (Inl (OSError e), w)
             | Inr q \<Rightarrow>
                 (case node_at (fs w) q of
                    None \<Rightarrow> (Inl (OSError ENOENT), w)
                  | Some (File _) \<Rightarrow> (Inl (OSError ENOTDIR), w)
                  | Some Dir \<Rightarrow> (Inr (), w\<lparr>cwd := q\<rparr>)))"

text \<open>\<^verbatim>\<open>open(p, "rb").read()\<close>.\<close>

definition open_read :: "string \<Rightarrow> content io" where
  "open_read p =
     (\<lambda>w. case resolve w p of
             Inl e \<Rightarrow> (Inl (OSError e), w)
           | Inr q \<Rightarrow>
               (case node_at (fs w) q of
                  None \<Rightarrow> (Inl (OSError ENOENT), w)
                | Some Dir \<Rightarrow> (Inl (OSError EISDIR), w)
                | Some (File c) \<Rightarrow> (Inr c, w)))"

text \<open>\<^verbatim>\<open>open(p, "wb").write(c)\<close>: creates the file or replaces its content.\<close>

definition open_write :: "string \<Rightarrow> content \<Rightarrow> unit io" where
  "open_write p c =
     (\<lambda>w. case resolve w p of
             Inl e \<Rightarrow> (Inl (OSError e), w)
           | Inr q \<Rightarrow>
               if node_at (fs w) q = Some Dir then (Inl (OSError EISDIR), w)
               else if node_at (fs w) (butlast q) \<noteq> Some Dir then (Inl (OSError ENOENT), w)
               else (Inr (), w\<lparr>fs := fs_put q (File c) (fs w)\<rparr>))"

text \<open>\<^verbatim>\<open>os.path.samefile\<close> as \<^verbatim>\<open>shutil\<close> uses it: false when either path is missing.\<close>

definition samefile :: "world \<Rightarrow> string \<Rightarrow> string \<Rightarrow> bool" where
  "samefile w a b =
     (os_path_exists w a \<and> os_path_exists w b \<and> resolve w a = resolve w b)"

text \<open>
  \<^verbatim>\<open>shutil.copy(src, dst)\<close>: into the directory \<open>dst\<close> under the name of the source,
  or onto the file \<open>dst\<close>; the source is opened before the destination.
\<close>

definition shutil_copy :: "string \<Rightarrow> string \<Rightarrow> unit io" where
  "shutil_copy src dst =
     then_io (record_event (Copy src dst))
       (\<lambda>w. let dst' = (if os_path_isdir w dst then os_path_join dst [basename src] else dst)
            in if samefile w src dst' then (Inl SameFileError, w)
               else bind_io (open_read src) (\<lambda>c. open_write dst' c) w)"

text \<open>
  \<^verbatim>\<open>os.makedirs(name)\<close> with \<^verbatim>\<open>exist_ok=False\<close>: every missing directory on the way is
  created, and the call fails with \<^verbatim>\<open>EEXIST\<close> when the last \<^verbatim>\<open>mkdir\<close> finds
  something, a directory or not, already there. The flag tells whether the last component
  walked was created by this call. Directories created before a failure stay.
\<close>

fun makedirs_walk :: "fsmap \<Rightarrow> path \<Rightarrow> bool \<Rightarrow> string list \<Rightarrow> (errno + unit) \<times> fsmap" where
  "makedirs_walk m cur created [] = (if created then (Inr (), m) else (Inl EEXIST, m))"
| "makedirs_walk m cur created (c # cs) =
     (if c = [] then makedirs_walk m cur created cs
      else (case node_at m cur of
              None \<Rightarrow> (Inl ENOENT, m)
            | Some (File _) \<Rightarrow> (Inl ENOTDIR, m)
            | Some Dir \<Rightarrow>
                if c = ''.'' then makedirs_walk m cur created cs
                else if c = ''..'' then makedirs_walk m (butlast cur) False cs
                else (case node_at m (cur @ [c]) of
                        None \<Rightarrow> makedirs_walk (fs_put (cur @ [c]) Dir m) (cur @ [c]) True cs
                      | Some _ \<Rightarrow> makedirs_walk m (cur @ [c]) False cs)))"

definition makedirs :: "string \<Rightarrow> unit io" where
  "makedirs name =
     (\<lambda>w. if name = [] then (Inl (OSError ENOENT), w)
          else (case makedirs_walk (fs w) (if isabs name then [] else cwd w) False
                       (str_split sep name) of
                  (Inl e, m) \<Rightarrow> (Inl (OSError e), w\<lparr>fs := m\<rparr>)
                | (Inr _, m) \<Rightarrow> (Inr (), w\<lparr>fs := m\<rparr>)))"

definition os_makedirs :: "string \<Rightarrow> unit io" where
  "os_makedirs name = then_io (record_event (Makedirs name)) (makedirs name)"

text \<open>\<^verbatim>\<open>os.mkdir(p)\<close>: one directory, whose parent must exist and which must not.\<close>

definition mkdir :: "string \<Rightarrow> unit io" where
  "mkdir p =
     (\<lambda>w. case resolve w p of
             Inl e \<Rightarrow> (Inl (OSError e), w)
           | Inr q \<Rightarrow>
               if node_at (fs w) q \<noteq> None then (Inl (OSError EEXIST), w)
               else if node_at (fs w) (butlast q) \<noteq> Some Dir then (Inl (OSError ENOENT), w)
               else (Inr (), w\<lparr>fs := fs_put q Dir (fs w)\<rparr>))"

definition os_mkdir :: "string \<Rightarrow> unit io" where
  "os_mkdir p = then_io (record_event (Mkdir p)) (mkdir p)"

text \<open>
  \<^verbatim>\<open>subprocess.check_call(command, shell=True)\<close>: what the command does to the files and
  its exit status are the environment's; a status other than 0 raises.
\<close>

definition subprocess_check_call :: "string \<Rightarrow> unit io" where
  "subprocess_check_call command =
     then_io (record_event (CheckCall command))
       (\<lambda>w. case shell w command (cwd w) (fs w) of
               (status, m) \<Rightarrow>
                 if status = 0 then (Inr (), w\<lparr>fs := m\<rparr>)
                 else (Inl CalledProcessError, w\<lparr>fs := m\<rparr>))"

text \<open>\<^verbatim>\<open>subprocess.check_output(args).decode()\<close>.\<close>

definition subprocess_check_output :: "string list \<Rightarrow> string io" where
  "subprocess_check_output args =
     then_io (record_event (CheckOutput args))
       (\<lambda>w. case child_output w args of
               None \<Rightarrow> (Inl CalledProcessError, w)
             | Some out \<Rightarrow> (Inr out, w))"

text \<open>\<^verbatim>\<open>urlretrieve(url, filename)\<close>: the URL is opened first, then the file written.\<close>

definition urlretrieve :: "string \<Rightarrow> string \<Rightarrow> unit io" where
  "urlretrieve url filename =
     then_io (record_event (Urlretrieve url filename))
       (\<lambda>w. case remote w url of
               None \<Rightarrow> (Inl HTTPError, w)
             | Some c \<Rightarrow> open_write filename c w)"

text \<open>
  \<^verbatim>\<open>glob.glob(pattern)\<close> for the patterns the script uses: no wildcard, or one \<^verbatim>\<open>*\<close>
  that ends the last component. The names of a directory come in the order the file system
  lists them; a name with a leading dot matches only a pattern with one.
\<close>

definition has_magic :: "string \<Rightarrow> bool" where
  "has_magic p = list_ex (\<lambda>c. c \<in> set ''*?['') p"

definition listdir :: "fsmap \<Rightarrow> path \<Rightarrow> string list" where
  "listdir m q = map (\<lambda>e. last (fst e)) (filter (\<lambda>e. fst e \<noteq> [] \<and> butlast (fst e) = q) m)"

definition glob_glob :: "string \<Rightarrow> string list io" where
  "glob_glob pattern =
     (\<lambda>w. if \<not> has_magic pattern
          then (Inr (if os_path_exists w pattern then [pattern] else []), w)
          else
            (let d = dirname pattern; b = basename pattern; pre = butlast b
             in if has_magic d \<or> has_magic pre \<or> b = [] \<or> last b \<noteq> CHR ''*'' then (Inr [], w)
                else (case (if d = [] then Inr (cwd w) else resolve w d) of
                        Inl _ \<Rightarrow> (Inr [], w)
                      | Inr q \<Rightarrow>
                          if node_at (fs w) q \<noteq> Some Dir then (Inr [], w)
                          else (Inr (map (\<lambda>n. os_path_join d [n])
                                      (filter (\<lambda>n. prefix pre n \<and>
                                                  (take 1 pre = ''.'' \<or> take 1 n \<noteq> ''.''))
                                         (listdir (fs w) q))), w))))"

text \<open>
  \<^verbatim>\<open>tempfile.TemporaryDirectory()\<close>: \<^verbatim>\<open>mkdtemp\<close> tries the names drawn, in turn, under
  \<^verbatim>\<open>/tmp\<close>, passing over those that exist. Leaving the \<^verbatim>\<open>with\<close> block removes the
  directory and what is in it; that it is already gone is not an error.
\<close>

fun mkdtemp_try :: "string list \<Rightarrow> string io" where
  "mkdtemp_try [] = raise_io (OSError EEXIST)"
| "mkdtemp_try (n # ns) =
     (\<lambda>w. let file = os_path_join ''/tmp'' [''tmp'' @ n]
          in (case mkdir file (w\<lparr>tmp_names := ns\<rparr>) of
                (Inr _, w') \<Rightarrow> (Inr file, w')
              | (Inl e, w') \<Rightarrow> if e = OSError EEXIST then mkdtemp_try ns w' else (Inl e, w')))"

definition tempfile_mkdtemp :: "string io" where
  "tempfile_mkdtemp = then_io (record_event Mkdtemp) (\<lambda>w. mkdtemp_try (tmp_names w) w)"

definition TemporaryDirectory_cleanup :: "string \<Rightarrow> unit io" where
  "TemporaryDirectory_cleanup name =
     then_io (record_event (Cleanup name))
       (\<lambda>w. case resolve w name of
               Inl e \<Rightarrow> if e = ENOENT then (Inr (), w) else (Inl (OSError e), w)
             | Inr q \<Rightarrow>
                 (case node_at (fs w) q of
                    None \<Rightarrow> (Inr (), w)
                  | Some (File _) \<Rightarrow> (Inl (OSError ENOTDIR), w)
                  | Some Dir \<Rightarrow> (Inr (), w\<lparr>fs := fs_remove_tree q (fs w)\<rparr>)))"

definition with_TemporaryDirectory :: "(string \<Rightarrow> 'a io) \<Rightarrow> 'a io" where
  "with_TemporaryDirectory body =
     bind_io tempfile_mkdtemp (\<lambda>d. finally_io (body d) (TemporaryDirectory_cleanup d))"

text \<open>
  \<^verbatim>\<open>ZipFile(zip_path, "r").extractall(extract_dir)\<close>: every member is written under the
  directory, its missing parent directories created first; the empty, \<^verbatim>\<open>.\<close> and
  \<^verbatim>\<open>..\<close> components of a member's name are dropped.
\<close>

definition extract_member :: "string \<Rightarrow> string \<times> string \<Rightarrow> unit io" where
  "extract_member dir member =
     (let arcname = intercalate_sep
            (filter (\<lambda>c. c \<noteq> [] \<and> c \<noteq> ''.'' \<and> c \<noteq> ''..'') (str_split sep (fst member)));
          targetpath = os_path_join dir [arcname];
          upperdirs = dirname targetpath
      in then_io
           (\<lambda>w. if upperdirs \<noteq> [] \<and> \<not> os_path_exists w upperdirs then makedirs upperdirs w
                else (Inr (), w))
           (open_write targetpath (Bytes (snd member))))"

definition zip_extractall :: "string \<Rightarrow> string \<Rightarrow> unit io" where
  "zip_extractall zip_path extract_dir =
     then_io (record_event (Extractall zip_path extract_dir))
       (bind_io (open_read zip_path)
          (\<lambda>c. case c of
                  Bytes _ \<Rightarrow> raise_io BadZipFile
                | Zip members \<Rightarrow> for_io members (extract_member extract_dir)))"

section \<open>The script\<close>

definition cp :: "string \<Rightarrow> string \<Rightarrow> unit io" where
  "cp source target =
     bind_io (lift_io (normpath source)) (\<lambda>source.
     bind_io (lift_io (normpath target)) (\<lambda>target.
     then_io (py_print (''cp '' @ source @ '' '' @ target))
       (shutil_copy source target)))"

definition maybe_makedirs :: "string \<Rightarrow> unit io" where
  "maybe_makedirs path =
     bind_io (lift_io (normpath path)) (\<lambda>path.
     then_io (py_print (''mkdir -p '' @ path))
       (except_io (os_makedirs path)
          (\<lambda>e. case e of
                  OSError en \<Rightarrow> if en \<noteq> EEXIST then raise_io e else return_io ()
                | _ \<Rightarrow> raise_io e)))"

text \<open>The context manager \<^verbatim>\<open>cd\<close>, applied to the body of its \<^verbatim>\<open>with\<close> block.\<close>

definition cd :: "string \<Rightarrow> (string \<Rightarrow> 'a io) \<Rightarrow> 'a io" where
  "cd path body =
     bind_io (lift_io (normpath path)) (\<lambda>path.
     bind_io os_getcwd (\<lambda>cwd.
     then_io (os_chdir path)
    (then_io (py_print (''cd '' @ path))
       (finally_io (body path) (os_chdir cwd)))))"

definition run :: "string \<Rightarrow> unit io" where
  "run command = then_io (py_print command) (subprocess_check_call command)"

definition retrieve :: "string \<Rightarrow> string \<Rightarrow> unit io" where
  "retrieve url filename =
     then_io (py_print (url @ '' -> '' @ filename)) (urlretrieve url filename)"

text \<open>
  \<^verbatim>\<open>main\<close>, after the command line is parsed: \<open>version\<close> is the value of
  \<^verbatim>\<open>--release-version\<close>. Its phases are named after the banners they print.
\<close>

definition copy_tracker :: "unit io" where
  "copy_tracker =
     then_io (py_print ''====copying pure-Python tracker===='')
       (for_io [True, False] (\<lambda>use_cuda.
          let xgboost4j = (if use_cuda then ''xgboost4j-gpu'' else ''xgboost4j'')
          in cp ''../python-package/xgboost/tracker.py'' (xgboost4j @ ''/src/main/resources'')))"

definition copy_test_resources :: "unit io" where
  "copy_test_resources =
     seq_io
       [py_print ''====copying resources for testing===='',
        cd ''../demo/CLI/regression'' (\<lambda>_.
          then_io (\<lambda>w. run (sys_executable w @ '' mapfeat.py'') w)
                  (\<lambda>w. run (sys_executable w @ '' mknfold.py machine.txt 1'') w)),
        for_io [True, False] (\<lambda>use_cuda.
          let xgboost4j = (if use_cuda then ''xgboost4j-gpu'' else ''xgboost4j'');
              xgboost4j_spark = (if use_cuda then ''xgboost4j-spark-gpu'' else ''xgboost4j-spark'')
          in seq_io
               [maybe_makedirs (xgboost4j @ ''/src/test/resources''),
                maybe_makedirs (xgboost4j_spark @ ''/src/test/resources''),
                bind_io (glob_glob ''../demo/data/agaricus.*'') (\<lambda>files.
                  for_io files (\<lambda>file.
                    then_io (cp file (xgboost4j @ ''/src/test/resources''))
                            (cp file (xgboost4j_spark @ ''/src/test/resources'')))),
                bind_io (glob_glob ''../demo/CLI/regression/machine.txt.t*'') (\<lambda>files.
                  for_io files (\<lambda>file.
                    cp file (xgboost4j_spark @ ''/src/test/resources'')))])]"

definition create_native_dirs :: "unit io" where
  "create_native_dirs =
     seq_io
       [py_print ''====Creating directories to hold native binaries===='',
        for_io [(''linux'', ''x86_64''), (''linux'', ''aarch64''), (''windows'', ''x86_64''),
                (''macos'', ''x86_64''), (''macos'', ''aarch64'')]
          (\<lambda>(os_ident, arch).
             maybe_makedirs (''xgboost4j/src/main/resources/lib/'' @ os_ident @ ''/'' @ arch)),
        for_io [(''linux'', ''x86_64'')]
          (\<lambda>(os_ident, arch).
             maybe_makedirs (''xgboost4j-gpu/src/main/resources/lib/'' @ os_ident @ ''/'' @ arch))]"

definition nightly_bucket_prefix :: string where
  "nightly_bucket_prefix = ''https://s3-us-west-2.amazonaws.com/xgboost-nightly-builds''"

definition maven_repo_prefix :: string where
  "maven_repo_prefix = ''https://s3-us-west-2.amazonaws.com/xgboost-maven-repo/release/ml/dmlc''"

definition download_native_binaries :: "string \<Rightarrow> string \<Rightarrow> unit io" where
  "download_native_binaries commit_hash git_branch =
     seq_io
       [py_print ''====Downloading native binaries from CI===='',
        retrieve (nightly_bucket_prefix @ ''/'' @ git_branch @ ''/libxgboost4j/xgboost4j_''
                    @ commit_hash @ ''.dll'')
          ''xgboost4j/src/main/resources/lib/windows/x86_64/xgboost4j.dll'',
        retrieve (nightly_bucket_prefix @ ''/'' @ git_branch
                    @ ''/libxgboost4j/libxgboost4j_linux_x86_64_'' @ commit_hash @ ''.so'')
          ''xgboost4j/src/main/resources/lib/linux/x86_64/libxgboost4j.so'',
        retrieve (nightly_bucket_prefix @ ''/'' @ git_branch
                    @ ''/libxgboost4j/libxgboost4j_linux_arm64_'' @ commit_hash @ ''.so'')
          ''xgboost4j/src/main/resources/lib/linux/aarch64/libxgboost4j.so'',
        retrieve (nightly_bucket_prefix @ ''/'' @ git_branch @ ''/libxgboost4j/libxgboost4j_''
                    @ commit_hash @ ''.dylib'')
          ''xgboost4j/src/main/resources/lib/macos/x86_64/libxgboost4j.dylib'',
        retrieve (nightly_bucket_prefix @ ''/'' @ git_branch @ ''/libxgboost4j/libxgboost4j_m1_''
                    @ commit_hash @ ''.dylib'')
          ''xgboost4j/src/main/resources/lib/macos/aarch64/libxgboost4j.dylib'']"

text \<open>The body of the \<^verbatim>\<open>with tempfile.TemporaryDirectory() as tempdir\<close> block.\<close>

definition gpu_binary_body :: "string \<Rightarrow> string \<Rightarrow> unit io" where
  "gpu_binary_body version tempdir =
     (let zip_path = os_path_join tempdir [''xgboost4j-gpu_2.12.jar''];
          extract_dir = os_path_join tempdir [''xgboost4j-gpu'']
      in seq_io
           [retrieve (maven_repo_prefix @ ''/xgboost4j-gpu_2.12/'' @ version @ ''/''
                        @ ''xgboost4j-gpu_2.12-'' @ version @ ''.jar'')
              zip_path,
            os_mkdir extract_dir,
            zip_extractall zip_path extract_dir,
            cp (os_path_join extract_dir [''lib'', ''linux'', ''x86_64'', ''libxgboost4j.so''])
               ''xgboost4j-gpu/src/main/resources/lib/linux/x86_64/libxgboost4j.so''])"

definition fetch_gpu_binary :: "string \<Rightarrow> unit io" where
  "fetch_gpu_binary version = with_TemporaryDirectory (gpu_binary_body version)"

definition print_next_steps :: "unit io" where
  "print_next_steps =
     seq_io
       [py_print ''====Next Steps===='',
        py_print ''1. Gain upload right to Maven Central repo.'',
        py_print ''1-1. Sign up for a JIRA account at Sonatype: '',
        py_print (''1-2. File a JIRA ticket: ''
          @ ''https://issues.sonatype.org/secure/CreateIssue.jspa?issuetype=21&pid=10134. Example: ''
          @ ''https://issues.sonatype.org/browse/OSSRH-67724''),
        py_print (''2. Store the Sonatype credentials in .m2/settings.xml. See insturctions in ''
          @ ''https://central.sonatype.org/publish/publish-maven/''),
        py_print (''3. Now on a Linux machine, run the following to build Scala 2.12 artifacts. ''
          @ ''Make sure to use an Internet connection with fast upload speed:''),
        py_print (''   # Skip native build, since we have all needed native binaries from CI''
          @ [CHR 0x0A]
          @ ''   GPG_TTY=$(tty) mvn deploy -Prelease -DskipTests -Dskip.native.build=true''),
        py_print (''4. Log into https://oss.sonatype.org/. On the left menu panel, click Staging ''
          @ ''Repositories. Visit the URL https://oss.sonatype.org/content/repositories/mldmlc-xxxx ''
          @ ''to inspect the staged JAR files. Finally, press Release button to publish the ''
          @ ''artifacts to the Maven Central repository. The top-level metapackage should be ''
          @ ''named xgboost-jvm_2.12.''),
        py_print (''5. Remove the Scala 2.12 artifacts and build Scala 2.13 artifacts:''
          @ [CHR 0x0A]
          @ ''   python ops/script/change_scala_version.py --scala-version 2.13 --purge-artifacts''
          @ [CHR 0x0A]
          @ ''   GPG_TTY=$(tty) mvn deploy -Prelease -DskipTests -Dskip.native.build=true''),
        py_print (''6. Go to https://oss.sonatype.org/ to release the Scala 2.13 artifacts. ''
          @ ''The top-level metapackage should be named xgboost-jvm_2.13.'')]"

definition main :: "string \<Rightarrow> unit io" where
  "main version =
     bind_io (bind_io (subprocess_check_output [''git'', ''rev-parse'', ''HEAD''])
                (\<lambda>out. lift_io (get_current_commit_hash out))) (\<lambda>commit_hash.
     bind_io (bind_io (subprocess_check_output
                         [''git'', ''log'', ''-n'', ''1'', ''--pretty=%d'', ''HEAD''])
                (\<lambda>out. lift_io (get_current_git_branch out))) (\<lambda>git_branch.
     seq_io
       [py_print (''Using commit '' @ commit_hash @ '' of branch '' @ git_branch),
        cd ''jvm-packages/'' (\<lambda>_.
          seq_io
            [copy_tracker,
             copy_test_resources,
             create_native_dirs,
             download_native_binaries commit_hash git_branch,
             fetch_gpu_binary version]),
        print_next_steps]))"

section \<open>Notions the properties are stated with\<close>

text \<open>The components of a path that are not empty, and the path \<^verbatim>\<open>posixpath.join\<close>
  builds from a list of components without separators.\<close>

definition nonempty_comps :: "string \<Rightarrow> string list" where
  "nonempty_comps p = filter (\<lambda>w. w \<noteq> []) (str_split sep p)"

definition joined :: "string list \<Rightarrow> string" where
  "joined comps =
     (let ne = filter (\<lambda>w. w \<noteq> []) comps
      in if ne = [] then [] else intercalate_sep ne @ (if last comps = [] then [sep] else []))"


text \<open>
  The language of \<^verbatim>\<open>release_[0-9\.]+\<close>; and a branch name in the strict sense, whose
  version is groups of digits with single dots between them.
\<close>

definition in_release_lang :: "string \<Rightarrow> bool" where
  "in_release_lang m =
     (take 8 m = ''release_'' \<and> drop 8 m \<noteq> [] \<and> list_all is_ver_char (drop 8 m))"

definition is_digit :: "char \<Rightarrow> bool" where
  "is_digit c = (c \<in> set ''0123456789'')"

definition dotted_numeric :: "string \<Rightarrow> bool" where
  "dotted_numeric v = list_all (\<lambda>g. g \<noteq> [] \<and> list_all is_digit g) (str_split CHR ''.'' v)"

definition strict_branch :: "string \<Rightarrow> bool" where
  "strict_branch m = (take 8 m = ''release_'' \<and> dotted_numeric (drop 8 m))"


text \<open>
  The shell command that stands for a call, for the calls the script narrates; and a trace
  in which every such call comes after a printed line that shows its command.
\<close>

fun shell_line :: "event \<Rightarrow> string option" where
  "shell_line (Copy s t) = Some (''cp '' @ s @ '' '' @ t)"
| "shell_line (Makedirs p) = Some (''mkdir -p '' @ p)"
| "shell_line (Chdir p) = Some (''cd '' @ p)"
| "shell_line (CheckCall c) = Some c"
| "shell_line (Urlretrieve u f) = Some (u @ '' -> '' @ f)"
| "shell_line _ = None"

fun narrated :: "string list \<Rightarrow> event list \<Rightarrow> bool" where
  "narrated seen [] = True"
| "narrated seen (Print s # es) = narrated (s # seen) es"
| "narrated seen (e # es) =
     ((case shell_line e of None \<Rightarrow> True | Some l \<Rightarrow> l \<in> set seen) \<and> narrated seen es)"

text \<open>A small world for examples: a directory \<^verbatim>\<open>/sub\<close> and a regular file \<^verbatim>\<open>/f\<close>; the
  working directory is the root, nothing answers on the network.\<close>

definition small_world :: world where
  "small_world =
     \<lparr>fs = [([''sub''], Dir), ([''f''], File (Bytes ''x''))], cwd = [], trace = [],
      remote = (\<lambda>u. None), shell = (\<lambda>c d m. (0, m)), child_output = (\<lambda>a. None),
      tmp_names = [], sys_executable = ''python''\<rparr>"



text \<open>
  A file system in which every directory of another is still a directory; and a statement
  that leaves every directory in place.
\<close>

definition dirs_kept :: "fsmap \<Rightarrow> fsmap \<Rightarrow> bool" where
  "dirs_kept m m' = (\<forall>p. node_at m p = Some Dir \<longrightarrow> node_at m' p = Some Dir)"

definition keeps_dirs :: "'a io \<Rightarrow> bool" where
  "keeps_dirs act = (\<forall>w. dirs_kept (fs w) (fs (snd (act w))))"


section \<open>Path normalisation\<close>

lemma str_split_not_Nil [simp]: "str_split c xs \<noteq> []"
  by (induction xs) (auto split: list.splits)

lemma str_split_append: "str_split c (xs @ c # ys) = str_split c xs @ str_split c ys"
  by (induction xs) (auto split: list.splits)

lemma str_split_free: "w \<in> set (str_split c xs) \<Longrightarrow> c \<notin> set w"
  by (induction xs arbitrary: w) (auto split: list.splits if_splits)

lemma str_split_snoc_sep: "str_split c (xs @ [c]) = str_split c xs @ [[]]"
  by (induction xs) (auto split: list.splits)

lemma str_split_append_free:
  "c \<notin> set w \<Longrightarrow> str_split c (w @ c # ys) = w # str_split c ys"
  by (induction w) (auto split: list.splits)

lemma str_split_free_id: "c \<notin> set w \<Longrightarrow> str_split c w = [w]"
  by (induction w) (auto split: list.splits)

lemma str_split_intercalate:
  "comps \<noteq> [] \<Longrightarrow> \<forall>w\<in>set comps. sep \<notin> set w \<Longrightarrow> str_split sep (intercalate_sep comps) = comps"
  by (induction comps rule: intercalate_sep.induct) (auto simp: str_split_free_id str_split_append_free)

lemma intercalate_snoc: "ws \<noteq> [] \<Longrightarrow> intercalate_sep (ws @ [w]) = intercalate_sep ws @ [sep] @ w"
  by (induction ws rule: intercalate_sep.induct) auto

lemma intercalate_not_Nil: "ws \<noteq> [] \<Longrightarrow> \<forall>w\<in>set ws. w \<noteq> [] \<Longrightarrow> intercalate_sep ws \<noteq> []"
  by (induction ws rule: intercalate_sep.induct) auto

lemma intercalate_last: "ws \<noteq> [] \<Longrightarrow> \<forall>w\<in>set ws. w \<noteq> [] \<Longrightarrow> last (intercalate_sep ws) = last (last ws)"
  by (induction ws rule: intercalate_sep.induct) (auto simp: intercalate_not_Nil)

lemma endswith_sep_iff: "endswith_sep p \<longleftrightarrow> p \<noteq> [] \<and> last p = sep"
  by (cases p rule: rev_cases) (auto simp: endswith_sep_def)

lemma startswith_sep_free: "sep \<notin> set b \<Longrightarrow> \<not> startswith_sep b"
  by (cases b) (auto simp: startswith_sep_def)

lemma filter_ne_last:
  "filter (\<lambda>w. w \<noteq> []) xs \<noteq> [] \<Longrightarrow> last xs \<noteq> [] \<Longrightarrow> last (filter (\<lambda>w. w \<noteq> []) xs) = last xs"
  by (cases xs rule: rev_cases) auto

lemma join_step_free:
  "sep \<notin> set b \<Longrightarrow> join_step p b = (if p = [] \<or> last p = sep then p @ b else p @ [sep] @ b)"
  by (auto simp: join_step_def startswith_sep_free endswith_sep_iff)

lemma joined_snoc:
  assumes "\<forall>w\<in>set cs. sep \<notin> set w" "sep \<notin> set b" "cs \<noteq> []"
  shows "join_step (joined cs) b = joined (cs @ [b])"
proof -
  let ?ne = "filter (\<lambda>w. w \<noteq> []) cs"
  show ?thesis
  proof (cases "?ne = []")
    case True
    then show ?thesis using assms by (simp add: joined_def join_step_free)
  next
    case ne: False
    have nn: "intercalate_sep ?ne \<noteq> []" using ne by (simp add: intercalate_not_Nil)
    show ?thesis
    proof (cases "last cs = []")
      case True
      then show ?thesis using assms ne nn
        by (simp add: joined_def join_step_free intercalate_snoc)
    next
      case False
      have "last (intercalate_sep ?ne) = last (last cs)"
        using ne False by (simp add: intercalate_last filter_ne_last)
      moreover have "last (last cs) \<noteq> sep"
        using assms False by (metis last_in_set)
      ultimately show ?thesis using assms ne nn False
        by (simp add: joined_def join_step_free intercalate_snoc)
    qed
  qed
qed

lemma foldl_join_step:
  "\<forall>w\<in>set (a # ps). sep \<notin> set w \<Longrightarrow> foldl join_step a ps = joined (a # ps)"
proof (induction ps rule: rev_induct)
  case Nil
  then show ?case by (auto simp: joined_def)
next
  case (snoc b ps)
  then have "foldl join_step a (ps @ [b]) = join_step (joined (a # ps)) b" by simp
  also have "\<dots> = joined ((a # ps) @ [b])"
    using snoc.prems by (intro joined_snoc) auto
  finally show ?case by simp
qed


lemma normpath_eq:
  "normpath p = Inr ((if isabs p then [sep] else []) @ joined (str_split sep p))"
proof -
  obtain a ps where ap: "str_split sep p = a # ps"
    by (cases "str_split sep p") auto
  have "\<forall>w\<in>set (a # ps). sep \<notin> set w"
    using str_split_free[of _ sep p] ap by auto
  then have "foldl join_step a ps = joined (a # ps)" by (rule foldl_join_step)
  then show ?thesis using ap
    by (simp add: normpath_def os_path_join_def abspath_root_def sep_def[symmetric])
qed

lemma split_joined:
  assumes "\<forall>w\<in>set cs. sep \<notin> set w" "filter (\<lambda>w. w \<noteq> []) cs \<noteq> []"
  shows "str_split sep (joined cs) =
         filter (\<lambda>w. w \<noteq> []) cs @ (if last cs = [] then [[]] else [])"
  using assms by (simp add: joined_def str_split_intercalate str_split_snoc_sep)





lemma not_isabs_joined:
  assumes "\<forall>w\<in>set cs. sep \<notin> set w"
  shows "\<not> isabs (joined cs)"
proof (cases "filter (\<lambda>w. w \<noteq> []) cs")
  case Nil
  then show ?thesis by (simp add: joined_def isabs_def startswith_sep_def)
next
  case (Cons w ws)
  then have "w \<in> set (filter (\<lambda>w. w \<noteq> []) cs)" by simp
  then have "w \<in> set cs" "w \<noteq> []" by auto
  then have "sep \<notin> set w" "w \<noteq> []" using assms by auto
  then obtain x xs where "w = x # xs" "x \<noteq> sep" by (cases w) auto
  then have "\<exists>r. intercalate_sep (w # ws) = x # r" by (cases ws) auto
  then show ?thesis using Cons \<open>x \<noteq> sep\<close>
    by (auto simp: joined_def isabs_def startswith_sep_def)
qed


lemma str_split_sep_Cons: "str_split sep (sep # r) = [] # str_split sep r"
  by simp




section \<open>Searching the branch name\<close>

lemma in_release_lang_iff:
  "in_release_lang m \<longleftrightarrow> (\<exists>ds. m = ''release_'' @ ds \<and> ds \<noteq> [] \<and> list_all is_ver_char ds)"
proof
  assume "in_release_lang m"
  then have "m = ''release_'' @ drop 8 m \<and> drop 8 m \<noteq> [] \<and> list_all is_ver_char (drop 8 m)"
    unfolding in_release_lang_def by (metis append_take_drop_id)
  then show "\<exists>ds. m = ''release_'' @ ds \<and> ds \<noteq> [] \<and> list_all is_ver_char ds" by blast
next
  assume "\<exists>ds. m = ''release_'' @ ds \<and> ds \<noteq> [] \<and> list_all is_ver_char ds"
  then show "in_release_lang m" by (auto simp: in_release_lang_def)
qed

lemma match_here_Some:
  assumes "match_here s = Some m"
  shows "\<exists>post. s = m @ post \<and> in_release_lang m \<and> (post = [] \<or> \<not> is_ver_char (hd post))"
proof -
  let ?run = "takeWhile is_ver_char (drop 8 s)"
  from assms have t: "take 8 s = ''release_''" and r: "?run \<noteq> []" and m: "m = ''release_'' @ ?run"
    by (auto simp: match_here_def Let_def split: if_splits)
  have "s = take 8 s @ ?run @ dropWhile is_ver_char (drop 8 s)" by simp
  then have s: "s = m @ dropWhile is_ver_char (drop 8 s)" using t m by simp
  have "list_all is_ver_char ?run" by (simp add: list_all_iff) (meson set_takeWhileD)
  then have "in_release_lang m" using r m by (simp add: in_release_lang_def)
  moreover have "dropWhile is_ver_char (drop 8 s) = [] \<or> \<not> is_ver_char (hd (dropWhile is_ver_char (drop 8 s)))"
    using hd_dropWhile by blast
  ultimately show ?thesis using s by blast
qed

lemma match_here_complete:
  assumes "in_release_lang m"
  shows "match_here (m @ post) \<noteq> None"
proof -
  from assms obtain ds where m: "m = ''release_'' @ ds" and ds: "ds \<noteq> []" "list_all is_ver_char ds"
    by (auto simp: in_release_lang_iff)
  then obtain d ds' where "ds = d # ds'" "is_ver_char d" by (cases ds) auto
  then show ?thesis using m by (simp add: match_here_def)
qed

lemma match_here_maximal:
  assumes "in_release_lang m" "post = [] \<or> \<not> is_ver_char (hd post)"
  shows "match_here (m @ post) = Some m"
proof -
  from assms obtain ds where m: "m = ''release_'' @ ds" and ds: "ds \<noteq> []" "list_all is_ver_char ds"
    by (auto simp: in_release_lang_iff)
  have "takeWhile is_ver_char (ds @ post) = ds"
    using ds assms(2) by (cases post) (auto simp: list_all_iff takeWhile_append2 takeWhile_eq_all_conv)
  then show ?thesis using m ds by (simp add: match_here_def)
qed

lemma re_search_Some:
  "re_search out = Some m \<Longrightarrow>
   \<exists>pre post. out = pre @ m @ post \<and> match_here (m @ post) = Some m \<and>
     (\<forall>i<length pre. match_here (drop i out) = None)"
proof (induction out)
  case Nil
  then have "match_here [] = Some m" by simp
  then show ?case by (simp add: match_here_def)
next
  case (Cons c cs)
  show ?case
  proof (cases "match_here (c # cs)")
    case (Some m')
    then have mm: "m' = m" using Cons.prems by simp
    obtain post where "c # cs = m @ post" using match_here_Some[OF Some] mm by blast
    then have "c # cs = [] @ m @ post \<and> match_here (m @ post) = Some m \<and>
        (\<forall>i<length ([]::string). match_here (drop i (c # cs)) = None)"
      using Some mm by simp
    then show ?thesis by blast
  next
    case None
    then have "re_search cs = Some m" using Cons.prems by simp
    then obtain pre post where p: "cs = pre @ m @ post" "match_here (m @ post) = Some m"
      "\<forall>i<length pre. match_here (drop i cs) = None" using Cons.IH by blast
    have "\<forall>i<length (c # pre). match_here (drop i (c # cs)) = None"
    proof (intro allI impI)
      fix i assume "i < length (c # pre)"
      then show "match_here (drop i (c # cs)) = None"
        using None p(3) by (cases i) auto
    qed
    then have "c # cs = (c # pre) @ m @ post \<and> match_here (m @ post) = Some m \<and>
        (\<forall>i<length (c # pre). match_here (drop i (c # cs)) = None)"
      using p(1,2) by simp
    then show ?thesis by blast
  qed
qed

lemma re_search_None:
  "re_search (pre @ s) = None \<Longrightarrow> match_here s = None"
proof (induction pre)
  case Nil
  then show ?case by (cases s) (auto split: option.splits)
next
  case (Cons p ps)
  then show ?case by (auto split: option.splits)
qed

lemma re_search_None_iff:
  "re_search out = None \<longleftrightarrow> (\<forall>m. sublist m out \<longrightarrow> \<not> in_release_lang m)"
proof
  assume n: "re_search out = None"
  show "\<forall>m. sublist m out \<longrightarrow> \<not> in_release_lang m"
  proof (intro allI impI notI)
    fix m assume "sublist m out" "in_release_lang m"
    then obtain pre post where "out = pre @ m @ post" by (auto simp: sublist_def)
    then have "match_here (m @ post) = None" using re_search_None n by blast
    then show False using match_here_complete[OF \<open>in_release_lang m\<close>] by blast
  qed
next
  assume a: "\<forall>m. sublist m out \<longrightarrow> \<not> in_release_lang m"
  show "re_search out = None"
  proof (rule ccontr)
    assume "re_search out \<noteq> None"
    then obtain m where "re_search out = Some m" by blast
    then obtain pre post where "out = pre @ m @ post" "match_here (m @ post) = Some m"
      using re_search_Some by blast
    then have "sublist m out" "in_release_lang m"
      using match_here_Some by (auto simp: sublist_def) 
    then show False using a by blast
  qed
qed


lemma leftmost_longest:
  assumes "\<exists>m. sublist m out \<and> in_release_lang m"
  shows "\<exists>pre m post. get_current_git_branch out = Inr m \<and> out = pre @ m @ post \<and>
           in_release_lang m \<and> (post = [] \<or> \<not> is_ver_char (hd post)) \<and>
           (\<forall>pre' m' post'. out = pre' @ m' @ post' \<and> in_release_lang m' \<longrightarrow> length pre \<le> length pre')"
proof -
  from assms have "re_search out \<noteq> None" by (simp add: re_search_None_iff)
  then obtain m where m: "re_search out = Some m" by blast
  then obtain pre post where p: "out = pre @ m @ post" "match_here (m @ post) = Some m"
    "\<forall>i<length pre. match_here (drop i out) = None" using re_search_Some by blast
  from match_here_Some[OF p(2)] have l: "in_release_lang m" "post = [] \<or> \<not> is_ver_char (hd post)"
    by auto
  have "length pre \<le> length pre'" if "out = pre' @ m' @ post'" "in_release_lang m'" for pre' m' post'
  proof (rule ccontr)
    assume "\<not> length pre \<le> length pre'"
    then have "match_here (drop (length pre') out) = None" using p(3) by simp
    then have "match_here (m' @ post') = None" using that(1) by simp
    then show False using match_here_complete[OF that(2)] by blast
  qed
  then have lm: "\<forall>pre' m' post'. out = pre' @ m' @ post' \<and> in_release_lang m' \<longrightarrow> length pre \<le> length pre'"
    by blast
  have "get_current_git_branch out = Inr m" using m by (simp add: get_current_git_branch_def)
  then show ?thesis using p(1) l lm by blast
qed

lemma two_matches_example: "get_current_git_branch ''(release_1.., release_2.0)'' = Inr ''release_1..''"
  by (simp add: get_current_git_branch_def match_here_def is_ver_char_def)

lemma takeWhile_barrier: "\<not> P c \<Longrightarrow> takeWhile P (xs @ c # rest) = takeWhile P xs"
  by (induction xs) auto

lemma match_here_barrier:
  assumes "match_here s = None" "c \<notin> set ''release_''" "\<not> is_ver_char c"
  shows "match_here (s @ c # rest) = None"
proof (cases "length s < 8")
  case True
  then have mem: "c \<in> set (take 8 (s @ c # rest))"
    by (cases "8 - length s") auto
  have "take 8 (s @ c # rest) \<noteq> ''release_''"
  proof
    assume "take 8 (s @ c # rest) = ''release_''"
    with mem have "c \<in> set ''release_''" by (simp only:)
    with assms(2) show False by blast
  qed
  then show ?thesis by (simp add: match_here_def)
next
  case False
  then have t: "take 8 (s @ c # rest) = take 8 s" "drop 8 (s @ c # rest) = drop 8 s @ c # rest" by simp_all
  have "takeWhile is_ver_char (drop 8 s @ c # rest) = takeWhile is_ver_char (drop 8 s)"
    using assms(3) by (rule takeWhile_barrier)
  then show ?thesis using assms(1) t by (auto simp: match_here_def Let_def split: if_splits)
qed

lemma re_search_barrier:
  assumes "re_search pre = None" "c \<notin> set ''release_''" "\<not> is_ver_char c"
  shows "re_search (pre @ c # rest) = re_search (c # rest)"
  using assms(1)
proof (induction pre)
  case Nil
  then show ?case by simp
next
  case (Cons p ps)
  then have "match_here (p # ps) = None" "re_search ps = None" by (auto split: option.splits)
  then show ?case using Cons.IH match_here_barrier[of "p # ps" c rest] assms(2,3) by simp
qed

lemma tag_example:
  assumes "\<forall>m. sublist m pre \<longrightarrow> \<not> in_release_lang m"
  shows "get_current_git_branch (pre @ ''(tag: v1.7.0, release_1.7.0)'' @ post) = Inr ''release_1.7.0''"
proof -
  have "re_search pre = None" using assms by (simp add: re_search_None_iff)
  then have "re_search (pre @ ''(tag: v1.7.0, release_1.7.0)'' @ post)
           = re_search (''(tag: v1.7.0, release_1.7.0)'' @ post)"
    using re_search_barrier[of pre "CHR ''(''"] by (simp add: is_ver_char_def)
  also have "\<dots> = Some ''release_1.7.0''"
    by (simp add: match_here_def is_ver_char_def)
  finally show ?thesis by (simp add: get_current_git_branch_def)
qed

lemma no_match_raises:
  assumes "\<forall>m. sublist m out \<longrightarrow> \<not> in_release_lang m"
  shows "get_current_git_branch out = Inl (ValueError ''Expected branch name of form release_xxx'')"
  using assms by (simp add: re_search_None_iff[symmetric] get_current_git_branch_def)

lemma str_split_hd_set: "str_split c v \<noteq> [] \<and> set (hd (str_split c v)) \<subseteq> set v"
  by (induction v) (auto split: list.splits)

lemma dotted_numeric_digit: "dotted_numeric v \<Longrightarrow> \<exists>c\<in>set v. is_digit c"
proof -
  assume a: "dotted_numeric v"
  obtain g gs where g: "str_split CHR ''.'' v = g # gs" by (cases "str_split CHR ''.'' v") auto
  then have "g \<noteq> []" "list_all is_digit g" using a by (auto simp: dotted_numeric_def)
  then obtain x where "x \<in> set g" "is_digit x" by (cases g) auto
  moreover have "set g \<subseteq> set v" using str_split_hd_set[of "CHR ''.''" v] g by simp
  ultimately show ?thesis by blast
qed

lemma dot_only_example: "(\<forall>m. sublist m ''release_.'' \<longrightarrow> \<not> strict_branch m) \<and>
   get_current_git_branch ''release_.'' = Inr ''release_.''"
proof -
  have "\<not> strict_branch m" if "sublist m ''release_.''" for m
  proof
    assume "strict_branch m"
    then obtain c where "c \<in> set (drop 8 m)" "is_digit c"
      using dotted_numeric_digit by (auto simp: strict_branch_def)
    then have "c \<in> set m" by (meson in_set_dropD)
    then have "c \<in> set ''release_.''" using that set_mono_sublist by blast
    then show False using \<open>is_digit c\<close> by (auto simp: is_digit_def)
  qed
  then show ?thesis by (simp add: get_current_git_branch_def match_here_def is_ver_char_def)
qed


lemma joined_double_sep:
  "joined (str_split sep (xs @ sep # sep # ys)) = joined (str_split sep (xs @ sep # ys))"
proof -
  have a: "str_split sep (xs @ sep # sep # ys) = str_split sep xs @ [] # str_split sep ys"
    by (simp add: str_split_append)
  have b: "str_split sep (xs @ sep # ys) = str_split sep xs @ str_split sep ys"
    by (simp add: str_split_append)
  show ?thesis unfolding a b by (simp add: joined_def)
qed

lemma isabs_double_sep: "isabs (xs @ sep # sep # ys) = isabs (xs @ sep # ys)"
  by (cases xs) (auto simp: isabs_def startswith_sep_def)

lemma normpath_double_sep: "normpath (xs @ ''//'' @ ys) = normpath (xs @ ''/'' @ ys)"
proof -
  have "normpath (xs @ sep # sep # ys) = normpath (xs @ sep # ys)"
    by (simp only: normpath_eq joined_double_sep isabs_double_sep)
  then show ?thesis by (simp add: sep_def)
qed

lemma filter_ne_Nil_abs:
  "filter (\<lambda>w. w \<noteq> []) (str_split sep p) = [] \<Longrightarrow> p = [] \<or> isabs p"
  by (cases p) (auto simp: isabs_def startswith_sep_def split: if_splits list.splits)













lemma normpath_trailing_one:
  "\<exists>q. normpath (p @ ''/'') = Inr (q @ ''/'') \<and> (q = [] \<or> last q \<noteq> CHR ''/'')"
proof -
  let ?cs = "str_split sep (p @ [sep])"
  let ?ne = "filter (\<lambda>w. w \<noteq> []) (str_split sep p)"
  have cs: "?cs = str_split sep p @ [[]]" by (rule str_split_snoc_sep)
  show ?thesis
  proof (cases "?ne = []")
    case True
    then have "joined ?cs = []" by (simp add: cs joined_def)
    moreover have "isabs (p @ [sep])"
      using filter_ne_Nil_abs[OF True] by (cases p) (auto simp: isabs_def startswith_sep_def)
    ultimately have "normpath (p @ [sep]) = Inr ([] @ [sep])" by (simp add: normpath_eq)
    then show ?thesis unfolding sep_def by blast
  next
    case False
    let ?q = "(if isabs (p @ [sep]) then [sep] else []) @ intercalate_sep ?ne"
    have all: "\<forall>c\<in>set ?ne. c \<noteq> []" by simp
    have "joined ?cs = intercalate_sep ?ne @ [sep]"
      using False by (simp add: cs joined_def)
    then have n: "normpath (p @ [sep]) = Inr (?q @ [sep])"
      by (simp add: normpath_eq)
    have ne: "intercalate_sep ?ne \<noteq> []" using False all by (rule intercalate_not_Nil)
    have "last ?ne \<in> set ?ne" using False by (rule last_in_set)
    then have "last ?ne \<noteq> []" "sep \<notin> set (last ?ne)" using str_split_free by fastforce+
    moreover have "last (intercalate_sep ?ne) = last (last ?ne)"
      using False all by (rule intercalate_last)
    ultimately have "last (intercalate_sep ?ne) \<noteq> sep" by (metis last_in_set)
    then have "last ?q \<noteq> sep" using ne by simp
    then show ?thesis using n unfolding sep_def by blast
  qed
qed




lemmas normpath_eval = normpath_def os_path_join_def join_step_def startswith_sep_def
  endswith_sep_def sep_def isabs_def abspath_root_def

section \<open>What the helpers print and do\<close>

lemmas io_defs = return_io_def raise_io_def lift_io_def bind_io_def then_io_def
  finally_io_def except_io_def record_event_def py_print_def

lemma normpath_total: "\<exists>q. normpath p = Inr q"
  using normpath_eq by blast

lemma trace_shutil_copy: "\<exists>ev. trace (snd (shutil_copy s t w)) = trace w @ Copy s t # ev"
  by (auto simp: shutil_copy_def open_read_def open_write_def io_defs Let_def
      split: sum.splits option.splits node.splits prod.splits)

lemma trace_cp:
  "\<exists>s t. normpath source = Inr s \<and> normpath target = Inr t \<and>
     trace (snd (cp source target w)) = trace w @ [Print (''cp '' @ s @ '' '' @ t), Copy s t]"
proof -
  obtain s t where st: "normpath source = Inr s" "normpath target = Inr t"
    using normpath_total by blast
  have "trace (snd (cp source target w)) = trace w @ [Print (''cp '' @ s @ '' '' @ t), Copy s t]"
    using st
    by (auto simp: cp_def shutil_copy_def open_read_def open_write_def io_defs Let_def
      split: sum.splits option.splits node.splits prod.splits)
  then show ?thesis using st by blast
qed

lemma trace_maybe_makedirs:
  "\<exists>p. normpath path = Inr p \<and>
     trace (snd (maybe_makedirs path w)) = trace w @ [Print (''mkdir -p '' @ p), Makedirs p]"
proof -
  obtain p where p: "normpath path = Inr p" using normpath_total by blast
  have "trace (snd (maybe_makedirs path w)) = trace w @ [Print (''mkdir -p '' @ p), Makedirs p]"
    using p
    by (auto simp: maybe_makedirs_def os_makedirs_def makedirs_def io_defs
      split: sum.splits option.splits node.splits prod.splits py_error.splits)
  then show ?thesis using p by blast
qed

lemma trace_run: "trace (snd (run command w)) = trace w @ [Print command, CheckCall command]"
  by (auto simp: run_def subprocess_check_call_def io_defs split: prod.splits)

lemma trace_retrieve:
  "trace (snd (retrieve url filename w)) =
   trace w @ [Print (url @ '' -> '' @ filename), Urlretrieve url filename]"
  by (auto simp: retrieve_def urlretrieve_def open_write_def io_defs
      split: sum.splits option.splits prod.splits)


section \<open>Normalised paths name the same place\<close>

lemma ne_split_joined:
  assumes "\<forall>w\<in>set cs. sep \<notin> set w"
  shows "filter (\<lambda>w. w \<noteq> []) (str_split sep (joined cs)) = filter (\<lambda>w. w \<noteq> []) cs"
proof (cases "filter (\<lambda>w. w \<noteq> []) cs = []")
  case True
  then show ?thesis by (simp add: joined_def)
next
  case False
  then show ?thesis using split_joined[OF assms False] by simp
qed

lemma last_split_joined:
  assumes "\<forall>w\<in>set cs. sep \<notin> set w" "cs \<noteq> []"
  shows "last (str_split sep (joined cs)) = last cs"
proof (cases "filter (\<lambda>w. w \<noteq> []) cs = []")
  case True
  then have "last cs = []" using assms(2)
    by (metis (mono_tags, lifting) filter_empty_conv last_in_set)
  then show ?thesis using True by (simp add: joined_def)
next
  case False
  then show ?thesis using split_joined[OF assms(1) False]
    by (auto simp: filter_ne_last)
qed

lemma joined_Nil_iff:
  assumes "\<forall>w\<in>set cs. sep \<notin> set w"
  shows "joined cs = [] \<longleftrightarrow> filter (\<lambda>w. w \<noteq> []) cs = []"
proof (cases "filter (\<lambda>w. w \<noteq> []) cs = []")
  case True
  then show ?thesis by (simp add: joined_def)
next
  case False
  then have "intercalate_sep (filter (\<lambda>w. w \<noteq> []) cs) \<noteq> []"
    by (simp add: intercalate_not_Nil)
  then show ?thesis using False by (simp add: joined_def Let_def)
qed

lemma normpath_props:
  assumes "normpath path = Inr p"
  shows "isabs p = isabs path"
    and "filter (\<lambda>w. w \<noteq> []) (str_split sep p) = filter (\<lambda>w. w \<noteq> []) (str_split sep path)"
    and "p = [] \<longleftrightarrow> path = []"
    and "last (str_split sep p) = last (str_split sep path)"
proof -
  let ?cs = "str_split sep path"
  have free: "\<forall>w\<in>set ?cs. sep \<notin> set w" using str_split_free by blast
  have p: "p = (if isabs path then [sep] else []) @ joined ?cs"
    using assms normpath_eq[of path] by simp
  show a: "isabs p = isabs path"
    using not_isabs_joined[OF free] p by (auto simp: isabs_def startswith_sep_def)
  show "filter (\<lambda>w. w \<noteq> []) (str_split sep p) = filter (\<lambda>w. w \<noteq> []) ?cs"
    using ne_split_joined[OF free] p by auto
  show "p = [] \<longleftrightarrow> path = []"
  proof
    assume "p = []"
    then have "\<not> isabs path" "joined ?cs = []" using p by (auto split: if_splits)
    then have "filter (\<lambda>w. w \<noteq> []) ?cs = []" using joined_Nil_iff[OF free] by simp
    then show "path = []" using filter_ne_Nil_abs \<open>\<not> isabs path\<close> by blast
  next
    assume "path = []"
    then show "p = []" using p by (simp add: joined_def isabs_def startswith_sep_def)
  qed
  show "last (str_split sep p) = last ?cs"
    using last_split_joined[OF free] p by (auto simp: last_ConsR)
qed

lemma walk_filter: "walk m cur (filter (\<lambda>w. w \<noteq> []) cs) = walk m cur cs"
  by (induction cs arbitrary: cur) (auto split: option.splits node.splits)

lemma resolve_normpath:
  assumes "normpath path = Inr p"
  shows "resolve w p = resolve w path"
proof -
  have "walk (fs w) c (str_split sep p) = walk (fs w) c (str_split sep path)" for c
    using normpath_props(2)[OF assms] walk_filter by metis
  then show ?thesis using normpath_props(1,3)[OF assms] by (simp add: resolve_def)
qed

lemma makedirs_walk_filter:
  "makedirs_walk m cur cr (filter (\<lambda>w. w \<noteq> []) cs) = makedirs_walk m cur cr cs"
  by (induction cs arbitrary: m cur cr) (auto split: option.splits node.splits)

lemma walk_exists:
  "walk m cur cs = Inr q \<Longrightarrow> node_at m q \<noteq> None \<Longrightarrow> node_at m cur \<noteq> None"
proof (induction cs arbitrary: cur)
  case Nil
  then show ?case by simp
next
  case (Cons c cs)
  show ?case
  proof (cases "c = []")
    case True
    then show ?thesis using Cons by simp
  next
    case False
    then show ?thesis using Cons.prems(1) by (auto split: option.splits node.splits)
  qed
qed

lemma makedirs_walk_existing:
  "walk m cur cs = Inr q \<Longrightarrow> node_at m q \<noteq> None \<Longrightarrow>
   makedirs_walk m cur False cs = (Inl EEXIST, m)"
proof (induction cs arbitrary: cur)
  case Nil
  then show ?case by simp
next
  case (Cons c cs)
  show ?case
  proof (cases "c = []")
    case True
    then show ?thesis using Cons by simp
  next
    case False
    then have d: "node_at m cur = Some Dir"
      using Cons.prems(1) by (auto split: option.splits node.splits)
    let ?next = "if c = ''.'' then cur else if c = ''..'' then butlast cur else cur @ [c]"
    have w: "walk m ?next cs = Inr q" using Cons.prems(1) False d by simp
    have ih: "makedirs_walk m ?next False cs = (Inl EEXIST, m)"
      using Cons.IH[OF w Cons.prems(2)] .
    have ex: "node_at m ?next \<noteq> None" using walk_exists[OF w Cons.prems(2)] .
    show ?thesis using False d ih ex by (auto split: option.splits)
  qed
qed

lemma makedirs_existing:
  assumes "os_path_exists w p"
  shows "makedirs p w = (Inl (OSError EEXIST), w)"
proof -
  from assms obtain q where q: "resolve w p = Inr q" "node_at (fs w) q \<noteq> None"
    by (auto simp: os_path_exists_def split: sum.splits)
  then have ne: "p \<noteq> []" and
    wk: "walk (fs w) (if isabs p then [] else cwd w) (str_split sep p) = Inr q"
    by (auto simp: resolve_def split: if_splits)
  show ?thesis using makedirs_walk_existing[OF wk q(2)] ne by (simp add: makedirs_def)
qed

lemma resolve_trace [simp]: "resolve (w\<lparr>trace := t\<rparr>) p = resolve w p"
  by (simp add: resolve_def)

lemma os_path_exists_trace [simp]: "os_path_exists (w\<lparr>trace := t\<rparr>) p = os_path_exists w p"
  by (simp add: os_path_exists_def split: sum.splits)

lemma os_path_isdir_trace [simp]: "os_path_isdir (w\<lparr>trace := t\<rparr>) p = os_path_isdir w p"
  by (simp add: os_path_isdir_def split: sum.splits)

lemma os_path_exists_normpath:
  "normpath path = Inr p \<Longrightarrow> os_path_exists w p = os_path_exists w path"
  by (simp add: os_path_exists_def resolve_normpath)

lemma makedirs_trace: "makedirs p (w\<lparr>trace := t\<rparr>) = (fst (makedirs p w), (snd (makedirs p w))\<lparr>trace := t\<rparr>)"
  by (auto simp: makedirs_def split: prod.splits sum.splits)

lemma maybe_makedirs_result:
  assumes "normpath path = Inr p"
  shows "fst (maybe_makedirs path w) =
           (case fst (makedirs p w) of
              Inl (OSError EEXIST) \<Rightarrow> Inr ()
            | r \<Rightarrow> r)"
    and "fs (snd (maybe_makedirs path w)) = fs (snd (makedirs p w))"
  using assms
  by (auto simp: maybe_makedirs_def os_makedirs_def io_defs makedirs_trace
      split: prod.splits sum.splits py_error.splits errno.splits)

lemma isdir_exists: "os_path_isdir w p \<Longrightarrow> os_path_exists w p"
  by (auto simp: os_path_isdir_def os_path_exists_def split: sum.splits)


lemmas eval_defs = io_defs normpath_eval resolve_def node_at_def os_path_isdir_def
  os_path_exists_def makedirs_def os_makedirs_def maybe_makedirs_def small_world_def
  os_chdir_def os_getcwd_def cd_def render_def fs_put_def

section \<open>Going back to the working directory\<close>








section \<open>Copying a file\<close>

lemma node_at_fs_put:
  "node_at (fs_put q n m) p = (if p = [] then Some Dir else if p = q then Some n else node_at m p)"
proof -
  have "map_of (filter (\<lambda>e. fst e \<noteq> q) m) p = map_of m p" if "p \<noteq> q"
    using that by (induction m) auto
  then show ?thesis by (auto simp: node_at_def fs_put_def)
qed








lemma resolve_fs_cwd:
  "fs w' = fs w \<Longrightarrow> cwd w' = cwd w \<Longrightarrow> resolve w' p = resolve w p"
  by (simp add: resolve_def)






section \<open>The temporary directory\<close>


lemma dirs_kept_refl [simp]: "dirs_kept m m"
  by (simp add: dirs_kept_def)

lemma dirs_kept_trans: "dirs_kept a b \<Longrightarrow> dirs_kept b c \<Longrightarrow> dirs_kept a c"
  by (simp add: dirs_kept_def)

lemma dirs_kept_put: "node_at m q \<noteq> Some Dir \<or> n = Dir \<Longrightarrow> dirs_kept m (fs_put q n m)"
  by (auto simp: dirs_kept_def node_at_fs_put)

lemma keeps_dirsI: "(\<And>w. dirs_kept (fs w) (fs (snd (act w)))) \<Longrightarrow> keeps_dirs act"
  by (simp add: keeps_dirs_def)

lemma keeps_dirsD: "keeps_dirs act \<Longrightarrow> dirs_kept (fs w) (fs (snd (act w)))"
  by (simp add: keeps_dirs_def)

lemma keeps_return [simp]: "keeps_dirs (return_io x)"
  by (simp add: keeps_dirs_def return_io_def)

lemma keeps_raise [simp]: "keeps_dirs (raise_io e)"
  by (simp add: keeps_dirs_def raise_io_def)

lemma keeps_lift [simp]: "keeps_dirs (lift_io r)"
  by (simp add: keeps_dirs_def lift_io_def)

lemma keeps_record [simp]: "keeps_dirs (record_event e)"
  by (simp add: keeps_dirs_def record_event_def)

lemma keeps_print [simp]: "keeps_dirs (py_print s)"
  by (simp add: py_print_def)

lemma keeps_bind: "keeps_dirs m \<Longrightarrow> (\<And>x. keeps_dirs (f x)) \<Longrightarrow> keeps_dirs (bind_io m f)"
proof (rule keeps_dirsI)
  fix w
  assume m: "keeps_dirs m" and f: "\<And>x. keeps_dirs (f x)"
  obtain r w' where mw: "m w = (r, w')" by (cases "m w")
  have a: "dirs_kept (fs w) (fs w')" using keeps_dirsD[OF m, of w] mw by simp
  show "dirs_kept (fs w) (fs (snd (bind_io m f w)))"
  proof (cases r)
    case (Inl e) then show ?thesis using a mw by (simp add: bind_io_def)
  next
    case (Inr x)
    have "dirs_kept (fs w') (fs (snd (f x w')))" using keeps_dirsD[OF f] .
    then have "dirs_kept (fs w) (fs (snd (f x w')))" using a dirs_kept_trans by blast
    then show ?thesis using mw Inr by (simp add: bind_io_def)
  qed
qed

lemma keeps_then: "keeps_dirs m \<Longrightarrow> keeps_dirs n \<Longrightarrow> keeps_dirs (then_io m n)"
  by (simp add: then_io_def keeps_bind)

lemma keeps_for: "(\<And>x. keeps_dirs (f x)) \<Longrightarrow> keeps_dirs (for_io xs f)"
  by (induction xs) (simp_all add: keeps_then)

lemma keeps_seq: "(\<And>m. m \<in> set ms \<Longrightarrow> keeps_dirs m) \<Longrightarrow> keeps_dirs (seq_io ms)"
  by (induction ms) (simp_all add: keeps_then)

lemma keeps_open_read [simp]: "keeps_dirs (open_read p)"
  by (rule keeps_dirsI) (auto simp: open_read_def split: sum.splits option.splits node.splits)

lemma keeps_open_write [simp]: "keeps_dirs (open_write p c)"
  by (rule keeps_dirsI) (auto simp: open_write_def dirs_kept_put split: sum.splits)

lemma keeps_mkdir [simp]: "keeps_dirs (mkdir p)"
  by (rule keeps_dirsI) (auto simp: mkdir_def dirs_kept_put split: sum.splits)

lemma dirs_kept_makedirs_walk: "dirs_kept m (snd (makedirs_walk m cur cr cs))"
proof (induction cs arbitrary: m cur cr)
  case Nil then show ?case by simp
next
  case (Cons c cs)
  have "dirs_kept m (snd (makedirs_walk (fs_put (cur @ [c]) Dir m) (cur @ [c]) True cs))"
    using dirs_kept_trans[OF dirs_kept_put[of m "cur @ [c]" Dir] Cons[of "fs_put (cur @ [c]) Dir m"]]
    by simp
  then show ?case using Cons by (auto split: option.splits node.splits)
qed

lemma keeps_makedirs [simp]: "keeps_dirs (makedirs p)"
proof (rule keeps_dirsI)
  fix w
  show "dirs_kept (fs w) (fs (snd (makedirs p w)))"
    using dirs_kept_makedirs_walk[of "fs w" "if isabs p then [] else cwd w" False "str_split sep p"]
    by (auto simp: makedirs_def split: prod.splits sum.splits)
qed

lemma keeps_fun: "(\<And>w. keeps_dirs (f w)) \<Longrightarrow> keeps_dirs (\<lambda>w. f w w)"
  by (simp add: keeps_dirs_def)

lemma keeps_retrieve [simp]: "keeps_dirs (retrieve url filename)"
proof -
  have "keeps_dirs (\<lambda>w. case remote w url of None \<Rightarrow> (Inl HTTPError, w)
                         | Some c \<Rightarrow> open_write filename c w)"
    using keeps_dirsD[OF keeps_open_write]
    by (auto intro!: keeps_dirsI split: option.splits)
  then show ?thesis by (simp add: retrieve_def urlretrieve_def keeps_then)
qed

lemma keeps_os_mkdir [simp]: "keeps_dirs (os_mkdir p)"
  by (simp add: os_mkdir_def keeps_then)

lemma keeps_extract_member [simp]: "keeps_dirs (extract_member dir member)"
proof -
  have "keeps_dirs (\<lambda>w. if u \<noteq> [] \<and> \<not> os_path_exists w u then makedirs u w else (Inr (), w))" for u
    using keeps_dirsD[OF keeps_makedirs] by (auto intro!: keeps_dirsI)
  then show ?thesis by (simp add: extract_member_def Let_def keeps_then)
qed

lemma keeps_zip_extractall [simp]: "keeps_dirs (zip_extractall z d)"
proof -
  have "keeps_dirs (case c of Bytes x \<Rightarrow> raise_io BadZipFile
                    | Zip members \<Rightarrow> for_io members (extract_member d))" for c
    by (cases c) (simp_all add: keeps_for)
  then show ?thesis by (simp add: zip_extractall_def keeps_then keeps_bind)
qed

lemma keeps_shutil_copy [simp]: "keeps_dirs (shutil_copy s t)"
proof -
  have k: "dirs_kept (fs w) (fs (snd (bind_io (open_read s) (\<lambda>c. open_write d c) w)))" for d w
    by (rule keeps_dirsD) (simp add: keeps_bind)
  have "keeps_dirs (\<lambda>w. let dst' = (if os_path_isdir w t then os_path_join t [basename s] else t)
            in if samefile w s dst' then (Inl SameFileError, w)
               else bind_io (open_read s) (\<lambda>c. open_write dst' c) w)"
    by (rule keeps_dirsI) (simp add: Let_def k)
  then show ?thesis by (simp add: shutil_copy_def keeps_then)
qed

lemma keeps_cp [simp]: "keeps_dirs (cp s t)"
  by (simp add: cp_def keeps_bind keeps_then)











section \<open>Claims about path normalisation and the branch name\<close>



text \<open>
  C9, as stated, fails for a trailing separator: the empty component after it is not
  dropped. \<open>normpath\<close> of \<^verbatim>\<open>a/\<close> is \<^verbatim>\<open>a/\<close>, not the \<^verbatim>\<open>a\<close> that \<open>normpath\<close> of
  \<^verbatim>\<open>a\<close> is, and splitting the result gives the empty component again.
\<close>

theorem normpath_keeps_trailing_separator:
  "normpath ''a/'' = Inr ''a/'' \<and> normpath ''a'' = Inr ''a'' \<and>
   str_split CHR ''/'' ''a/'' = [''a'', []]"
  by (simp add: normpath_eval)

text \<open>
  C9, amended. A repeated separator counts as one: doubling any separator of a path does
  not change what \<open>normpath\<close> returns, so \<open>normpath\<close> of \<^verbatim>\<open>a//b\<close> equals \<open>normpath\<close> of
  \<^verbatim>\<open>a/b\<close>. The empty string gives the empty string and no exception. A trailing
  separator is kept, as one separator: a path that ends with a separator gives a path
  that ends with a separator, and what is before that separator is empty or ends with
  another character.
\<close>

theorem normpath_collapses_repeated_separators:
  "normpath (xs @ ''//'' @ ys) = normpath (xs @ ''/'' @ ys) \<and>
   normpath ''a//b'' = normpath ''a/b'' \<and>
   normpath [] = Inr [] \<and>
   (\<exists>q. normpath (p @ ''/'') = Inr (q @ ''/'') \<and> (q = [] \<or> last q \<noteq> CHR ''/''))"
proof -
  have "normpath ''a//b'' = normpath ''a/b''" by (simp add: normpath_eval)
  moreover have "normpath [] = Inr []" by (simp add: normpath_eval)
  ultimately show ?thesis using normpath_double_sep normpath_trailing_one by blast
qed

text \<open>
  C3, as stated, fails: the text \<^verbatim>\<open>release_.\<close> has no substring that is \<^verbatim>\<open>release_\<close>
  followed by a dotted numeric version, and the resolver returns \<^verbatim>\<open>release_.\<close> for it
  instead of raising.
\<close>

theorem git_branch_accepts_dot_only_version:
  "\<not> (\<exists>m. sublist m ''release_.'' \<and> strict_branch m) \<and>
   get_current_git_branch ''release_.'' = Inr ''release_.''"
  using dot_only_example by blast

text \<open>
  C3, amended. Given ref decoration text that contains \<^verbatim>\<open>(tag: v1.7.0, release_1.7.0)\<close>,
  with no match of \<^verbatim>\<open>release_[0-9.]+\<close> before it, the resolver returns exactly
  \<^verbatim>\<open>release_1.7.0\<close>. For every text with no substring matching \<^verbatim>\<open>release_[0-9.]+\<close>,
  that is \<^verbatim>\<open>release_\<close> followed by at least one digit or dot, it raises
  \<^verbatim>\<open>ValueError("Expected branch name of form release_xxx")\<close>.
\<close>

theorem git_branch_tag_example_and_no_match:
  "((\<forall>m. sublist m pre \<longrightarrow> \<not> in_release_lang m) \<longrightarrow>
      get_current_git_branch (pre @ ''(tag: v1.7.0, release_1.7.0)'' @ post) =
        Inr ''release_1.7.0'') \<and>
   ((\<forall>m. sublist m out \<longrightarrow> \<not> in_release_lang m) \<longrightarrow>
      get_current_git_branch out =
        Inl (ValueError ''Expected branch name of form release_xxx''))"
  using tag_example no_match_raises by blast

theorem git_branch_tag_example_and_no_match_witness:
  "\<not> (\<exists>m. sublist m '' '' \<and> in_release_lang m) \<and>
   get_current_git_branch ('' '' @ ''(tag: v1.7.0, release_1.7.0)'' @ [CHR 0x0A]) =
     Inr ''release_1.7.0'' \<and>
   \<not> (\<exists>m. sublist m '' (HEAD -> master)'' \<and> in_release_lang m) \<and>
   get_current_git_branch '' (HEAD -> master)'' =
     Inl (ValueError ''Expected branch name of form release_xxx'')"
proof -
  have h1: "\<forall>m. sublist m '' '' \<longrightarrow> \<not> in_release_lang m"
    by (simp add: re_search_None_iff[symmetric] match_here_def)
  have h2: "\<forall>m. sublist m '' (HEAD -> master)'' \<longrightarrow> \<not> in_release_lang m"
    by (simp add: re_search_None_iff[symmetric] match_here_def)
  from git_branch_tag_example_and_no_match[of "'' ''" "[CHR 0x0A]" "'' (HEAD -> master)''"] h1 h2
  show ?thesis by blast
qed

text \<open>
  C10. For every text that has a substring matching \<^verbatim>\<open>release_[0-9.]+\<close> (one or many),
  the resolver returns a match \<open>m\<close> that starts at the leftmost position where any match
  starts, and runs on as long as digits and dots follow. The pattern accepts any nonempty
  sequence of digits and dots after \<^verbatim>\<open>release_\<close>: \<^verbatim>\<open>release_1..\<close> is returned as a
  branch name.
\<close>

theorem git_branch_leftmost_match:
  assumes "\<exists>m. sublist m out \<and> in_release_lang m"
  shows "(\<exists>pre m post. get_current_git_branch out = Inr m \<and> out = pre @ m @ post \<and>
            in_release_lang m \<and> (post = [] \<or> \<not> is_ver_char (hd post)) \<and>
            (\<forall>pre' m' post'. out = pre' @ m' @ post' \<and> in_release_lang m' \<longrightarrow>
               length pre \<le> length pre')) \<and>
         get_current_git_branch ''release_1..'' = Inr ''release_1..''"
proof -
  have "get_current_git_branch ''release_1..'' = Inr ''release_1..''"
    by (simp add: get_current_git_branch_def match_here_def is_ver_char_def)
  then show ?thesis using leftmost_longest[OF assms] by blast
qed

theorem git_branch_leftmost_match_witness:
  "(\<exists>m. sublist m ''(release_1.., release_2.0)'' \<and> in_release_lang m) \<and>
   (\<exists>pre m post. get_current_git_branch ''(release_1.., release_2.0)'' = Inr m \<and>
      ''(release_1.., release_2.0)'' = pre @ m @ post \<and>
      in_release_lang m \<and> (post = [] \<or> \<not> is_ver_char (hd post)) \<and>
      (\<forall>pre' m' post'.
         ''(release_1.., release_2.0)'' = pre' @ m' @ post' \<and> in_release_lang m' \<longrightarrow>
         length pre \<le> length pre')) \<and>
   get_current_git_branch ''(release_1.., release_2.0)'' = Inr ''release_1..''"
proof -
  have "sublist ''release_2.0'' (''(release_1.., '' @ ''release_2.0'' @ '')'')"
    by (rule sublist_appendI)
  moreover have "in_release_lang ''release_2.0''"
    by (simp add: in_release_lang_def is_ver_char_def)
  ultimately have h: "\<exists>m. sublist m ''(release_1.., release_2.0)'' \<and> in_release_lang m"
    by auto
  have e: "get_current_git_branch ''(release_1.., release_2.0)'' = Inr ''release_1..''"
    by (rule two_matches_example)
  from git_branch_leftmost_match[OF h] h e show ?thesis by blast
qed

section \<open>Claims about the helpers\<close>

text \<open>
  C2, as stated, fails where a regular file occupies the path: \<^verbatim>\<open>os.makedirs\<close> raises
  \<^verbatim>\<open>FileExistsError\<close>, whose \<^verbatim>\<open>errno\<close> is \<^verbatim>\<open>EEXIST\<close>, and \<open>maybe_makedirs\<close> passes
  over it. With the regular file \<^verbatim>\<open>/f\<close> in place the call returns normally, and the
  file is still there, not a directory.
\<close>

theorem maybe_makedirs_succeeds_on_regular_file:
  "node_at (fs small_world) [''f''] = Some (File (Bytes ''x'')) \<and>
   fst (maybe_makedirs ''f'' small_world) = Inr () \<and>
   node_at (fs (snd (maybe_makedirs ''f'' small_world))) [''f''] = Some (File (Bytes ''x''))"
  by (simp add: eval_defs)

text \<open>
  C2, amended. For every path at which a directory already exists, \<open>maybe_makedirs\<close>
  succeeds silently and leaves the file system as it was. It succeeds whenever
  \<^verbatim>\<open>os.makedirs\<close> fails with \<^verbatim>\<open>EEXIST\<close>, and every other failure of \<^verbatim>\<open>os.makedirs\<close> is
  propagated to the caller unchanged. (\<open>p\<close> is the normalised path, which always exists.)
\<close>

theorem maybe_makedirs_swallows_only_EEXIST:
  "\<exists>p. normpath path = Inr p \<and>
     (os_path_isdir w path \<longrightarrow>
        fst (maybe_makedirs path w) = Inr () \<and> fs (snd (maybe_makedirs path w)) = fs w) \<and>
     (fst (makedirs p w) = Inl (OSError EEXIST) \<longrightarrow> fst (maybe_makedirs path w) = Inr ()) \<and>
     (\<forall>e. fst (makedirs p w) = Inl e \<and> e \<noteq> OSError EEXIST \<longrightarrow>
        fst (maybe_makedirs path w) = Inl e)"
proof -
  obtain p where p: "normpath path = Inr p" using normpath_total by blast
  have a: "fst (maybe_makedirs path w) = Inr () \<and> fs (snd (maybe_makedirs path w)) = fs w"
    if "os_path_isdir w path"
  proof -
    have "os_path_exists w p" using that isdir_exists os_path_exists_normpath[OF p] by simp
    then have "makedirs p w = (Inl (OSError EEXIST), w)" by (rule makedirs_existing)
    then show ?thesis using maybe_makedirs_result[OF p, of w] by simp
  qed
  have b: "fst (maybe_makedirs path w) = Inr ()" if "fst (makedirs p w) = Inl (OSError EEXIST)"
    using that maybe_makedirs_result(1)[OF p, of w] by simp
  have c: "fst (maybe_makedirs path w) = Inl e"
    if "fst (makedirs p w) = Inl e" "e \<noteq> OSError EEXIST" for e
    using that maybe_makedirs_result(1)[OF p, of w]
    by (auto split: py_error.splits errno.splits)
  show ?thesis using p a b c by blast
qed

theorem maybe_makedirs_swallows_only_EEXIST_witness:
  "os_path_isdir small_world ''sub'' \<and>
   fst (makedirs ''sub'' small_world) = Inl (OSError EEXIST) \<and>
   fst (maybe_makedirs ''sub'' small_world) = Inr () \<and>
   fs (snd (maybe_makedirs ''sub'' small_world)) = fs small_world \<and>
   fst (makedirs ''f/x'' small_world) = Inl (OSError ENOTDIR) \<and>
   OSError ENOTDIR \<noteq> OSError EEXIST \<and>
   fst (maybe_makedirs ''f/x'' small_world) = Inl (OSError ENOTDIR)"
proof -
  have n1: "normpath ''sub'' = Inr ''sub''" and n2: "normpath ''f/x'' = Inr ''f/x''"
    by (simp_all add: normpath_eval)
  have h1: "os_path_isdir small_world ''sub''"
    and h2: "fst (makedirs ''sub'' small_world) = Inl (OSError EEXIST)"
    and h3: "fst (makedirs ''f/x'' small_world) = Inl (OSError ENOTDIR)"
    by (simp_all add: eval_defs)
  from maybe_makedirs_swallows_only_EEXIST[of "''sub''" small_world]
       maybe_makedirs_swallows_only_EEXIST[of "''f/x''" small_world] n1 n2 h1 h2 h3
  show ?thesis by auto
qed

text \<open>
  C5, as stated, fails for \<open>cd\<close>: it changes the directory first and prints afterwards.
  In the trace of a \<open>cd\<close> the \<^verbatim>\<open>chdir\<close> call comes before the line \<^verbatim>\<open>cd sub\<close>, the
  \<^verbatim>\<open>chdir\<close> that goes back is never printed, and a \<^verbatim>\<open>chdir\<close> that fails is not printed
  at all.
\<close>

theorem cd_prints_after_chdir:
  "trace (snd (cd ''sub'' (\<lambda>_. return_io ()) small_world)) =
     [Chdir ''sub'', Print ''cd sub'', Chdir ''/''] \<and>
   \<not> narrated [] (trace (snd (cd ''sub'' (\<lambda>_. return_io ()) small_world))) \<and>
   cd ''missing'' (\<lambda>_. return_io ()) small_world =
     (Inl (OSError ENOENT), small_world\<lparr>trace := [Chdir ''missing'']\<rparr>)"
  by (simp add: eval_defs)

text \<open>
  C5, amended. Every copy (\<open>cp\<close>), directory creation (\<open>maybe_makedirs\<close>), subprocess run
  (\<open>run\<close>) and download (\<open>retrieve\<close>) prints its equivalent shell command to standard
  output before the action executes: whatever the outcome of the call, it adds to the
  trace the printed line and then the action, in this order.
\<close>

theorem helpers_print_before_acting:
  "(\<exists>s t. normpath source = Inr s \<and> normpath target = Inr t \<and>
      trace (snd (cp source target w)) =
        trace w @ [Print (''cp '' @ s @ '' '' @ t), Copy s t]) \<and>
   (\<exists>p. normpath path = Inr p \<and>
      trace (snd (maybe_makedirs path w)) =
        trace w @ [Print (''mkdir -p '' @ p), Makedirs p]) \<and>
   trace (snd (run command w)) = trace w @ [Print command, CheckCall command] \<and>
   trace (snd (retrieve url filename w)) =
     trace w @ [Print (url @ '' -> '' @ filename), Urlretrieve url filename]"
  using trace_cp trace_maybe_makedirs trace_run trace_retrieve by blast








end
